theory Spec2Isabelle
  imports Complex_Main "HOL-Library.Word"
begin

unbundle bit_operations_syntax

section \<open>Machine types of the target (STM32F030, 32-bit int)\<close>

type_synonym uint8_t = "8 word"
type_synonym uint32_t = "32 word"
type_synonym int16_t = "16 word"

section \<open>Raw-to-physical conversion (AHT10_getTempHumid100, lines 180 to 190)\<close>

text \<open>
  Line 180: \<^verbatim>\<open>humidData = ( ahtData[1]<<16 | ahtData[2]<<8 | ahtData[3] ) >> 4;\<close>
  The bytes are promoted to 32-bit integers before shifting; every intermediate value is
  below \<open>2 ^ 24\<close>, so the 32-bit word carries the same bits as the C \<open>int\<close>.
\<close>

definition humidData_of :: "uint8_t list \<Rightarrow> uint32_t" where
  "humidData_of ahtData =
     drop_bit 4 (push_bit 16 (ucast (ahtData ! 1)) OR push_bit 8 (ucast (ahtData ! 2))
                 OR ucast (ahtData ! 3))"

text \<open>
  Line 181: \<^verbatim>\<open>tempData = ( ahtData[3] & 0x0F ) <<16 | ahtData[4]<<8 | ahtData[5] ;\<close>
\<close>

definition tempData_of :: "uint8_t list \<Rightarrow> uint32_t" where
  "tempData_of ahtData =
     push_bit 16 (ucast (ahtData ! 3) AND 0x0F) OR push_bit 8 (ucast (ahtData ! 4))
       OR ucast (ahtData ! 5)"

text \<open>
  Line 183: \<^verbatim>\<open>*temp100 = (tempData*625) / 32768 - 5000;\<close>
  The right-hand side is computed in \<open>uint32_t\<close> (multiplication and subtraction wrap
  modulo \<open>2 ^ 32\<close>, the division is unsigned); storing it in an \<open>int16_t\<close> keeps the low
  16 bits.
\<close>

definition temp100_of :: "uint32_t \<Rightarrow> int16_t" where
  "temp100_of tempData = ucast ((tempData * 625) div 32768 - 5000)"

text \<open>Line 190: \<^verbatim>\<open>*humid100 = humidData/10486;\<close>\<close>

definition humid100_of :: "uint32_t \<Rightarrow> int16_t" where
  "humid100_of humidData = ucast (humidData div 10486)"

section \<open>The bus transport and the timing source\<close>

text \<open>
  Modelled from the spec: the bus transport (\<^verbatim>\<open>STM32F030-CMSIS-I2C-lib.c\<close>) and the timing
  source (\<^verbatim>\<open>STM32F030-Delay-lib.c\<close>), which the driver includes and whose text is not
  among the sources. The specification gives their contract only: blocking primitives to
  select an address, a byte count and a direction, to start and stop, to write a byte, to
  read a byte, and to wait a number of microseconds. A call to one of them is recorded,
  with its arguments, in the order it is made; \<open>I2C_read\<close> in addition returns the next
  byte the bus delivers. Nothing else about them is assumed.
\<close>

type_synonym I2C_TypeDef = nat

datatype bus_call =
    SetAddress I2C_TypeDef uint8_t
  | SetNBytes I2C_TypeDef nat
  | SetReadMode I2C_TypeDef
  | SetWriteMode I2C_TypeDef
  | Start I2C_TypeDef
  | Stop I2C_TypeDef
  | Write I2C_TypeDef uint8_t
  | Read I2C_TypeDef
  | Init I2C_TypeDef nat
  | Delay_us nat

record world =
  AHT10_I2C :: I2C_TypeDef
  calls :: "bus_call list"
  pending :: "nat \<Rightarrow> uint8_t"

text \<open>
  \<open>AHT10_I2C\<close> is the global of line 85, \<open>calls\<close> the calls made so far (oldest
  first), and \<open>pending k\<close> the byte that the \<open>k\<close>-th coming \<open>I2C_read\<close> returns.
\<close>

definition call :: "bus_call \<Rightarrow> world \<Rightarrow> world" where
  "call c s = s\<lparr>calls := calls s @ [c]\<rparr>"

definition I2C_init :: "I2C_TypeDef \<Rightarrow> nat \<Rightarrow> world \<Rightarrow> world" where
  "I2C_init i2c speed = call (Init i2c speed)"

definition I2C_setAddress :: "I2C_TypeDef \<Rightarrow> uint8_t \<Rightarrow> world \<Rightarrow> world" where
  "I2C_setAddress i2c addr = call (SetAddress i2c addr)"

definition I2C_setNBytes :: "I2C_TypeDef \<Rightarrow> nat \<Rightarrow> world \<Rightarrow> world" where
  "I2C_setNBytes i2c n = call (SetNBytes i2c n)"

definition I2C_setReadMode :: "I2C_TypeDef \<Rightarrow> world \<Rightarrow> world" where
  "I2C_setReadMode i2c = call (SetReadMode i2c)"

definition I2C_setWriteMode :: "I2C_TypeDef \<Rightarrow> world \<Rightarrow> world" where
  "I2C_setWriteMode i2c = call (SetWriteMode i2c)"

definition I2C_start :: "I2C_TypeDef \<Rightarrow> world \<Rightarrow> world" where
  "I2C_start i2c = call (Start i2c)"

definition I2C_stop :: "I2C_TypeDef \<Rightarrow> world \<Rightarrow> world" where
  "I2C_stop i2c = call (Stop i2c)"

definition I2C_write :: "I2C_TypeDef \<Rightarrow> uint8_t \<Rightarrow> world \<Rightarrow> world" where
  "I2C_write i2c b = call (Write i2c b)"

definition I2C_read :: "I2C_TypeDef \<Rightarrow> world \<Rightarrow> uint8_t \<times> world" where
  "I2C_read i2c s =
     (pending s 0, (call (Read i2c) s)\<lparr>pending := (\<lambda>k. pending s (Suc k))\<rparr>)"

definition delay_us :: "nat \<Rightarrow> world \<Rightarrow> world" where
  "delay_us us = call (Delay_us us)"

section \<open>Sensor protocol driver\<close>

definition AHT10_ADD :: uint8_t where "AHT10_ADD = 0x38"
definition AHT10_INIT :: uint8_t where "AHT10_INIT = 0xE1"
definition AHT10_INIT_D0 :: uint8_t where "AHT10_INIT_D0 = 0x08"
definition AHT10_INIT_D1 :: uint8_t where "AHT10_INIT_D1 = 0x00"
definition AHT10_TRIG_MEAS :: uint8_t where "AHT10_TRIG_MEAS = 0xAC"
definition AHT10_TRIG_D0 :: uint8_t where "AHT10_TRIG_D0 = 0x33"
definition AHT10_TRIG_D1 :: uint8_t where "AHT10_TRIG_D1 = 0x00"

text \<open>
  Lines 104 to 117. The first statement stores the handle in the global. No call of the
  transport or of the timing source assigns the global, so each function reads it once,
  as \<open>i2c\<close>.
\<close>

definition AHT10_init :: "I2C_TypeDef \<Rightarrow> nat \<Rightarrow> world \<Rightarrow> world" where
  "AHT10_init thisI2C I2CSpeed s0 =
     (let s1 = s0\<lparr>AHT10_I2C := thisI2C\<rparr>;
          i2c = AHT10_I2C s1;
          s2 = I2C_init i2c I2CSpeed s1;
          s3 = I2C_setAddress i2c AHT10_ADD s2;
          s4 = I2C_setNBytes i2c 3 s3;
          s5 = I2C_start i2c s4;
          s6 = I2C_write i2c AHT10_INIT s5;
          s7 = I2C_write i2c AHT10_INIT_D0 s6;
          s8 = I2C_write i2c AHT10_INIT_D1 s7;
          s9 = I2C_stop i2c s8
      in delay_us 40 s9)"

text \<open>
  Lines 132 to 158. The result holds the six cells \<open>data[0]\<close> to \<open>data[5]\<close> that the
  function writes through its pointer argument. The argument \<open>75e3\<close> of the first delay
  is the constant 75000.
\<close>

definition AHT10_readSensorData :: "world \<Rightarrow> uint8_t list \<times> world" where
  "AHT10_readSensorData s0 =
     (let i2c = AHT10_I2C s0;
          s1 = I2C_setAddress i2c AHT10_ADD s0;
          s2 = I2C_setNBytes i2c 3 s1;
          s3 = I2C_start i2c s2;
          s4 = I2C_write i2c AHT10_TRIG_MEAS s3;
          s5 = I2C_write i2c AHT10_TRIG_D0 s4;
          s6 = I2C_write i2c AHT10_TRIG_D1 s5;
          s7 = I2C_stop i2c s6;
          s8 = delay_us 75000 s7;
          s9 = I2C_setNBytes i2c 6 s8;
          s10 = I2C_setReadMode i2c s9;
          s11 = I2C_start i2c s10;
          (d0, s12) = I2C_read i2c s11;
          (d1, s13) = I2C_read i2c s12;
          (d2, s14) = I2C_read i2c s13;
          (d3, s15) = I2C_read i2c s14;
          (d4, s16) = I2C_read i2c s15;
          (d5, s17) = I2C_read i2c s16;
          s18 = I2C_stop i2c s17;
          s19 = I2C_setWriteMode i2c s18
      in ([d0, d1, d2, d3, d4, d5], delay_us 420 s19))"

text \<open>
  Lines 170 to 193. The result is the returned status byte with the two values stored
  through \<open>temp100\<close> and \<open>humid100\<close>.
\<close>

record reading =
  status :: uint8_t
  temp100 :: int16_t
  humid100 :: int16_t

definition AHT10_getTempHumid100 :: "world \<Rightarrow> reading \<times> world" where
  "AHT10_getTempHumid100 s =
     (let (ahtData, s') = AHT10_readSensorData s;
          humidData = humidData_of ahtData;
          tempData = tempData_of ahtData
      in (\<lparr>status = ahtData ! 0, temp100 = temp100_of tempData,
           humid100 = humid100_of humidData\<rparr>, s'))"

section \<open>Fixed-point formatter (i100toa, lines 204 to 234)\<close>

text \<open>
  \<open>itoa\<close> belongs to the C library, not to the repository. In base 10 it writes a minus
  sign for a negative value, then the decimal digits of the magnitude without leading
  zeros, each taken from the digit table; \<open>digit_char\<close> is only applied below 10. The
  scratch buffer \<open>tmpString[6]\<close> holds every such string for an \<open>int16_t\<close> whole part of
  at most three digits (\<open>-327\<close> with its terminator is five bytes), so the strings are
  passed on directly.
\<close>

definition digit_char :: "nat \<Rightarrow> char" where
  "digit_char n = ''0123456789'' ! n"

fun digits10 :: "nat \<Rightarrow> string" where
  "digits10 n = (if n < 10 then [digit_char n] else digits10 (n div 10) @ [digit_char (n mod 10)])"

declare digits10.simps [simp del]

definition itoa :: "int \<Rightarrow> string" where
  "itoa v = (if v < 0 then CHR ''-'' # digits10 (nat (- v)) else digits10 (nat v))"

text \<open>
  Arithmetic on \<open>int16_t\<close> variables is done on their values promoted to \<open>int\<close>;
  \<open>/\<close> truncates towards zero, and a store into an \<open>int16_t\<close> keeps the low 16 bits.
\<close>

definition c_div :: "int \<Rightarrow> int \<Rightarrow> int" where
  "c_div a b = (if (a < 0) = (b < 0) then \<bar>a\<bar> div \<bar>b\<bar> else - (\<bar>a\<bar> div \<bar>b\<bar>))"

definition to_int16 :: "int \<Rightarrow> int16_t" where
  "to_int16 k = word_of_int k"

text \<open>
  The two results of the rounding block (lines 215 to 223): the decimal digit \<open>d\<close> and the
  whole part \<open>w\<close> after it.
\<close>

definition round_up :: "int16_t \<Rightarrow> int16_t \<Rightarrow> int16_t \<Rightarrow> int16_t \<times> int16_t" where
  "round_up r d w =
     (if 5 \<le> sint r then
        (let d1 = to_int16 (sint d + 1)
         in if 10 \<le> sint d1 then (0, to_int16 (sint w + 1)) else (d1, w))
      else (d, w))"

definition i100toa :: "int16_t \<Rightarrow> string" where
  "i100toa realV =
     (let x = to_int16 \<bar>sint realV\<bar>;
          w = to_int16 (c_div (sint x) 100);
          f = to_int16 (sint x - sint w * 100);
          d = to_int16 (c_div (sint f) 10);
          r = to_int16 (sint f - sint d * 10);
          (d', w') = round_up r d w;
          thisString = (if sint realV < 0 then ''-'' else [])
      in thisString @ itoa (sint w') @ ''.'' @ itoa (sint d'))"

section \<open>The specification's formatter and reader\<close>

text \<open>
  \<open>FormatCentiValue\<close> follows the four steps of the specification's algorithm, on
  unbounded integers; \<open>i100toa\<close> above follows the C code.
\<close>

definition FormatCentiValue :: "int \<Rightarrow> string" where
  "FormatCentiValue value100 =
     (let x = \<bar>value100\<bar>;
          w = x div 100;
          f = x mod 100;
          d = f div 10;
          r = f mod 10;
          (d', w') = (if 5 \<le> r then (if d + 1 = 10 then (0, w + 1) else (d + 1, w)) else (d, w))
      in (if value100 < 0 then ''-'' else []) @ digits10 (nat w') @ ''.'' @ [digit_char (nat d')])"

text \<open>
  Reading a string back as a signed decimal with exactly one fractional digit: an
  optional minus sign, one or more digits, a point, one digit.
\<close>

definition digit_val :: "char \<Rightarrow> nat option" where
  "digit_val c =
     (let n = (of_char c :: nat) in if 48 \<le> n \<and> n \<le> 57 then Some (n - 48) else None)"

fun dec_value :: "string \<Rightarrow> nat option" where
  "dec_value [] = Some 0"
| "dec_value (c # cs) =
     (case (digit_val c, dec_value cs) of
        (Some k, Some m) \<Rightarrow> Some (m * 10 + k)
      | _ \<Rightarrow> None)"

definition parse_nat :: "string \<Rightarrow> nat option" where
  "parse_nat s = (if s = [] then None else dec_value (rev s))"

definition parse_decimal1 :: "string \<Rightarrow> rat option" where
  "parse_decimal1 s =
     (let neg = (s \<noteq> [] \<and> hd s = CHR ''-'');
          body = (if neg then tl s else s);
          whole = takeWhile (\<lambda>c. c \<noteq> CHR ''.'') body;
          rest = dropWhile (\<lambda>c. c \<noteq> CHR ''.'') body
      in case rest of
           [p, c] \<Rightarrow>
             (case (parse_nat whole, digit_val c) of
                (Some w, Some d) \<Rightarrow>
                  Some ((if neg then - 1 else 1) * (of_nat w + of_nat d / 10))
              | _ \<Rightarrow> None)
         | _ \<Rightarrow> None)"

text \<open>Rounding to the nearest multiple of 10, a tie going away from zero.\<close>

definition round_to_10 :: "int \<Rightarrow> int" where
  "round_to_10 v = sgn v * (((\<bar>v\<bar> + 5) div 10) * 10)"

text \<open>
  The 40-bit data field of a raw measurement: bytes 1 to 5, most significant first.
\<close>

definition field40 :: "uint8_t list \<Rightarrow> int" where
  "field40 bytes =
     uint (bytes ! 1) * 2 ^ 32 + uint (bytes ! 2) * 2 ^ 24 + uint (bytes ! 3) * 2 ^ 16
       + uint (bytes ! 4) * 2 ^ 8 + uint (bytes ! 5)"

section \<open>Reading words as integers\<close>

lemma uint_byte_lt: "uint (b :: uint8_t) < 256"
  using uint_lt2p [of b] by simp

lemma uint_ucast_8_32: "uint (ucast (b :: uint8_t) :: uint32_t) = uint b"
  by (simp add: uint_up_ucast is_up)

lemma sint_ucast_32_16:
  "sint (ucast (w :: uint32_t) :: int16_t) = (uint w + 32768) mod 65536 - 32768"
proof -
  have "(ucast w :: int16_t) = word_of_int (uint w)"
    by simp
  then have "sint (ucast w :: int16_t) = sint (word_of_int (uint w) :: int16_t)"
    by simp
  also have "\<dots> = (uint w + 32768) mod 65536 - 32768"
    by (simp only: int_word_sint) simp
  finally show ?thesis .
qed

lemma mod32_then_16: "((x :: int) mod 4294967296 + y) mod 65536 = (x + y) mod 65536"
proof -
  have "(65536 :: int) dvd 4294967296" by simp
  then have "x mod 4294967296 mod 65536 = x mod 65536"
    by (rule mod_mod_cancel)
  then show ?thesis
    by (metis mod_add_left_eq)
qed

lemma c_div_nonneg: "0 \<le> a \<Longrightarrow> 0 < b \<Longrightarrow> c_div a b = a div b"
  by (simp add: c_div_def)

section \<open>Temperature scaling\<close>

lemma uint_temp_expr:
  "uint ((t :: uint32_t) * 625 div 32768 - 5000)
     = ((uint t * 625) mod 4294967296 div 32768 - 5000) mod 4294967296"
  by (simp add: uint_word_ariths uint_div)

lemma temp_arith:
  fixes n :: int
  assumes "0 \<le> n" "n < 1048576"
  shows "(((n * 625) mod 4294967296 div 32768 - 5000) mod 4294967296 + 32768) mod 65536 - 32768
           = n * 625 div 32768 - 5000"
proof -
  have a: "(n * 625) mod 4294967296 = n * 625" using assms by simp
  define q where "q = n * 625 div 32768"
  have q: "0 \<le> q" "q \<le> 19999" using assms unfolding q_def by simp_all
  have "((q - 5000) mod 4294967296 + 32768) mod 65536 = (q - 5000 + 32768) mod 65536"
    by (rule mod32_then_16)
  also have "\<dots> = q + 27768"
    using q by simp
  finally have b: "((q - 5000) mod 4294967296 + 32768) mod 65536 = q + 27768" .
  show ?thesis unfolding a using b unfolding q_def by simp
qed

lemma sint_temp100_of:
  assumes "uint t < 1048576"
  shows "sint (temp100_of t) = uint t * 625 div 32768 - 5000"
proof -
  have "sint (temp100_of t)
      = (((uint t * 625) mod 4294967296 div 32768 - 5000) mod 4294967296 + 32768) mod 65536 - 32768"
    unfolding temp100_of_def sint_ucast_32_16 uint_temp_expr ..
  also have "\<dots> = uint t * 625 div 32768 - 5000"
    using assms by (intro temp_arith) simp_all
  finally show ?thesis .
qed




section \<open>Humidity scaling\<close>

lemma humid_store:
  fixes n :: int
  assumes "0 \<le> n" "n < 1048576"
  shows "(n div 10486 + 32768) mod 65536 - 32768 = n div 10486"
proof -
  have "0 \<le> n div 10486" "n div 10486 \<le> 99"
    using assms by simp_all
  then show ?thesis by simp
qed

lemma sint_humid100_of:
  assumes "uint h < 1048576"
  shows "sint (humid100_of h) = uint h div 10486"
proof -
  have "sint (humid100_of h) = (uint h div 10486 + 32768) mod 65536 - 32768"
    unfolding humid100_of_def sint_ucast_32_16 by (simp add: uint_div)
  also have "\<dots> = uint h div 10486"
    using assms by (intro humid_store) simp_all
  finally show ?thesis .
qed





section \<open>Field extraction\<close>

lemma or_is_add3:
  "push_bit 16 (ucast (a :: uint8_t) :: uint32_t) OR push_bit 8 (ucast (b :: uint8_t)) OR ucast (c :: uint8_t)
   = push_bit 16 (ucast a) + (push_bit 8 (ucast b) + ucast c)"
proof -
  have d1: "push_bit 8 (ucast b :: uint32_t) AND ucast c = 0"
    by (rule bit_word_eqI) (auto simp: bit_simps dest: bit_imp_le_length)
  have d2: "push_bit 16 (ucast a :: uint32_t) AND (push_bit 8 (ucast b) OR ucast c) = 0"
    by (rule bit_word_eqI) (auto simp: bit_simps dest: bit_imp_le_length)
  show ?thesis
    using disjunctive_add_eq_or [OF d1] disjunctive_add_eq_or [OF d2] by simp
qed

lemma uint_pack3:
  "uint (push_bit 16 (ucast (a :: uint8_t) :: uint32_t) OR push_bit 8 (ucast (b :: uint8_t)) OR ucast (c :: uint8_t))
   = uint a * 65536 + uint b * 256 + uint c"
proof -
  have r: "0 \<le> uint a" "0 \<le> uint b" "0 \<le> uint c" by simp_all
  note l = uint_byte_lt [of a] uint_byte_lt [of b] uint_byte_lt [of c]
  have "uint (push_bit 16 (ucast a :: uint32_t) + (push_bit 8 (ucast b) + ucast c))
      = (uint a * 65536 mod 4294967296 + (uint b * 256 mod 4294967296 + uint c) mod 4294967296) mod 4294967296"
    by (simp add: uint_word_ariths unsigned_push_bit_eq uint_ucast_8_32 push_bit_eq_mult take_bit_eq_mod)
  also have "\<dots> = uint a * 65536 + uint b * 256 + uint c"
    using r l by simp
  finally show ?thesis by (simp only: or_is_add3)
qed

lemma and_15_int: "(x :: int) AND 15 = x mod 16"
proof -
  have "(15 :: int) = mask 4" by (simp add: mask_eq_exp_minus_1)
  then have "x AND 15 = take_bit 4 x" by (simp add: take_bit_eq_mask)
  then show ?thesis by (simp add: take_bit_eq_mod)
qed

lemma low_nibble: "(ucast (b :: uint8_t) AND (0x0F :: uint32_t)) = ucast (b AND 0x0F)"
  by (rule bit_word_eqI) (auto simp: bit_simps dest: bit_imp_le_length)

lemma uint_low_nibble: "uint ((b :: uint8_t) AND 0x0F) = uint b mod 16"
  by (simp add: uint_and and_15_int)

lemma uint_shift_right_4: "uint (drop_bit 4 (x :: uint32_t)) = uint x div 16"
  by (simp add: drop_bit_eq_div uint_div)

lemma uint_humidData_of:
  "uint (humidData_of [b0, b1, b2, b3, b4, b5]) = (uint b1 * 65536 + uint b2 * 256 + uint b3) div 16"
proof -
  have e: "humidData_of [b0, b1, b2, b3, b4, b5]
      = drop_bit 4 (push_bit 16 (ucast b1) OR push_bit 8 (ucast b2) OR ucast b3)"
    by (simp add: humidData_of_def)
  show ?thesis
    by (simp only: e uint_shift_right_4 uint_pack3)
qed

lemma uint_tempData_of:
  "uint (tempData_of [b0, b1, b2, b3, b4, b5]) = (uint b3 mod 16) * 65536 + uint b4 * 256 + uint b5"
proof -
  have e: "tempData_of [b0, b1, b2, b3, b4, b5]
      = push_bit 16 (ucast (b3 AND 0x0F)) OR push_bit 8 (ucast b4) OR ucast b5"
    by (simp add: tempData_of_def low_nibble)
  show ?thesis
    by (simp only: e uint_pack3 uint_low_nibble)
qed

lemma tempData_range:
  "0 \<le> uint (tempData_of [b0, b1, b2, b3, b4, b5]) \<and> uint (tempData_of [b0, b1, b2, b3, b4, b5]) < 1048576"
proof -
  have "uint b3 mod 16 < 16" "0 \<le> uint b3 mod 16" by simp_all
  then show ?thesis
    unfolding uint_tempData_of
    using uint_byte_lt [of b4] uint_byte_lt [of b5] by simp
qed

lemma humidData_nibbles:
  "uint (humidData_of [b0, b1, b2, b3, b4, b5]) = uint b1 * 4096 + uint b2 * 16 + uint b3 div 16"
proof -
  have "(uint b1 * 65536 + uint b2 * 256 + uint b3) div 16
      = (uint b3 + 16 * (uint b1 * 4096 + uint b2 * 16)) div 16"
    by (simp add: algebra_simps)
  also have "\<dots> = uint b3 div 16 + (uint b1 * 4096 + uint b2 * 16)"
    by simp
  finally show ?thesis
    unfolding uint_humidData_of by simp
qed

lemma humidData_range:
  "uint (humidData_of [b0, b1, b2, b3, b4, b5]) < 1048576"
proof -
  have "uint b3 div 16 < 16" using uint_byte_lt [of b3] by simp
  then show ?thesis
    unfolding humidData_nibbles
    using uint_byte_lt [of b1] uint_byte_lt [of b2] by simp
qed

lemma field40_split:
  "field40 [b0, b1, b2, b3, b4, b5]
     = uint (humidData_of [b0, b1, b2, b3, b4, b5]) * 1048576
       + uint (tempData_of [b0, b1, b2, b3, b4, b5])"
proof -
  have "uint b3 = 16 * (uint b3 div 16) + uint b3 mod 16"
    by simp
  then have "uint b3 * 65536 = (uint b3 div 16) * 1048576 + (uint b3 mod 16) * 65536"
    by linarith
  then show ?thesis
    unfolding humidData_nibbles uint_tempData_of
    by (simp add: field40_def)
qed

lemma field40_div_mod:
  "field40 [b0, b1, b2, b3, b4, b5] div 2 ^ 20 = uint (humidData_of [b0, b1, b2, b3, b4, b5])"
  "field40 [b0, b1, b2, b3, b4, b5] mod 2 ^ 20 = uint (tempData_of [b0, b1, b2, b3, b4, b5])"
  using tempData_range [of b0 b1 b2 b3 b4 b5]
  unfolding field40_split by simp_all

lemma humidData_ignores_status:
  "humidData_of (b # bytes) = humidData_of (c # bytes)"
  by (simp add: humidData_of_def)

lemma tempData_ignores_status:
  "tempData_of (b # bytes) = tempData_of (c # bytes)"
  by (simp add: tempData_of_def)


section \<open>The calls of the driver\<close>

lemma call_proj:
  "calls (call c s) = calls s @ [c]"
  "pending (call c s) = pending s"
  "AHT10_I2C (call c s) = AHT10_I2C s"
  by (simp_all add: call_def)

lemma I2C_read_proj:
  "fst (I2C_read i s) = pending s 0"
  "calls (snd (I2C_read i s)) = calls s @ [Read i]"
  "pending (snd (I2C_read i s)) = (\<lambda>k. pending s (Suc k))"
  "AHT10_I2C (snd (I2C_read i s)) = AHT10_I2C s"
  by (simp_all add: I2C_read_def call_def)

lemmas transport_calls = delay_us_def I2C_setAddress_def I2C_setNBytes_def I2C_start_def
  I2C_stop_def I2C_write_def I2C_setReadMode_def I2C_setWriteMode_def

lemmas trigger_bytes = AHT10_ADD_def AHT10_TRIG_MEAS_def AHT10_TRIG_D0_def AHT10_TRIG_D1_def

lemma readSensorData_calls:
  "calls (snd (AHT10_readSensorData s)) =
     calls s @
       [SetAddress (AHT10_I2C s) 0x38, SetNBytes (AHT10_I2C s) 3, Start (AHT10_I2C s),
        Write (AHT10_I2C s) 0xAC, Write (AHT10_I2C s) 0x33, Write (AHT10_I2C s) 0x00,
        Stop (AHT10_I2C s), Delay_us 75000,
        SetNBytes (AHT10_I2C s) 6, SetReadMode (AHT10_I2C s), Start (AHT10_I2C s),
        Read (AHT10_I2C s), Read (AHT10_I2C s), Read (AHT10_I2C s),
        Read (AHT10_I2C s), Read (AHT10_I2C s), Read (AHT10_I2C s),
        Stop (AHT10_I2C s), SetWriteMode (AHT10_I2C s), Delay_us 420]"
  by (simp add: AHT10_readSensorData_def Let_def split_def transport_calls trigger_bytes
      call_proj I2C_read_proj)


lemma readSensorData_data_Suc:
  "fst (AHT10_readSensorData s) =
     [pending s 0, pending s (Suc 0), pending s (Suc (Suc 0)), pending s (Suc (Suc (Suc 0))),
      pending s (Suc (Suc (Suc (Suc 0)))), pending s (Suc (Suc (Suc (Suc (Suc 0)))))]"
  by (simp add: AHT10_readSensorData_def Let_def split_def transport_calls
      call_proj I2C_read_proj)

lemma small_numerals:
  "(1 :: nat) = Suc 0" "(2 :: nat) = Suc (Suc 0)" "(3 :: nat) = Suc (Suc (Suc 0))"
  "(4 :: nat) = Suc (Suc (Suc (Suc 0)))" "(5 :: nat) = Suc (Suc (Suc (Suc (Suc 0))))"
  "(6 :: nat) = Suc (Suc (Suc (Suc (Suc (Suc 0)))))"
  by simp_all

lemma readSensorData_data:
  "fst (AHT10_readSensorData s) =
     [pending s 0, pending s 1, pending s 2, pending s 3, pending s 4, pending s 5]"
  unfolding small_numerals by (rule readSensorData_data_Suc)

lemma readSensorData_pending:
  "pending (snd (AHT10_readSensorData s)) = (\<lambda>k. pending s (k + 6))"
proof -
  have "pending (snd (AHT10_readSensorData s))
      = (\<lambda>k. pending s (Suc (Suc (Suc (Suc (Suc (Suc k)))))))"
    by (simp add: AHT10_readSensorData_def Let_def split_def transport_calls
        call_proj I2C_read_proj)
  then show ?thesis
    by (simp add: small_numerals(6))
qed

lemma readSensorData_global:
  "AHT10_I2C (snd (AHT10_readSensorData s)) = AHT10_I2C s"
  by (simp add: AHT10_readSensorData_def Let_def split_def transport_calls
      call_proj I2C_read_proj)

lemma getTempHumid100_reading:
  "fst (AHT10_getTempHumid100 s) =
     \<lparr>status = pending s 0,
      temp100 = temp100_of (tempData_of (fst (AHT10_readSensorData s))),
      humid100 = humid100_of (humidData_of (fst (AHT10_readSensorData s)))\<rparr>"
  by (simp add: AHT10_getTempHumid100_def split_def Let_def readSensorData_data)

lemma getTempHumid100_world:
  "snd (AHT10_getTempHumid100 s) = snd (AHT10_readSensorData s)"
  by (simp add: AHT10_getTempHumid100_def split_def Let_def)

text \<open>
  Claim C4. For every six-byte raw measurement, \<open>humidData\<close> is
  \<open>(bytes[1]<<16 | bytes[2]<<8 | bytes[3]) >> 4\<close>, the top 20 bits of the 40-bit data
  field, and \<open>tempData\<close> is \<open>(bytes[3] & 0x0F)<<16 | bytes[4]<<8 | bytes[5]\<close>, its bottom
  20 bits: the high nibble of byte 3 gives the four low bits of the humidity and its low
  nibble the four high bits of the temperature. \<open>AHT10_getTempHumid100\<close> applies these
  two extractions to the six bytes it reads: in every state, and so for every six bytes
  \<open>b0\<close> to \<open>b5\<close> delivered next, it returns \<open>b0\<close> as the status and stores the scalings of
  exactly these two fields. For the measurement \<open>[0x19, 0x19, 0x99, 0x9A, 0x66, 0x66]\<close> the
  fields are \<open>0x19999\<close> and \<open>0xA6666\<close>, and the returned status is \<open>0x19\<close>.
\<close>

theorem field_extraction:
  "uint (humidData_of [b0, b1, b2, b3, b4, b5])
     = (uint b1 * 2 ^ 16 + uint b2 * 2 ^ 8 + uint b3) div 2 ^ 4
   \<and> uint (tempData_of [b0, b1, b2, b3, b4, b5])
     = (uint b3 mod 2 ^ 4) * 2 ^ 16 + uint b4 * 2 ^ 8 + uint b5
   \<and> uint (humidData_of [b0, b1, b2, b3, b4, b5]) = field40 [b0, b1, b2, b3, b4, b5] div 2 ^ 20
   \<and> uint (tempData_of [b0, b1, b2, b3, b4, b5]) = field40 [b0, b1, b2, b3, b4, b5] mod 2 ^ 20
   \<and> uint (humidData_of [b0, b1, b2, b3, b4, b5]) = uint b1 * 2 ^ 12 + uint b2 * 2 ^ 4 + uint b3 div 2 ^ 4
   \<and> humidData_of [0x19, 0x19, 0x99, 0x9A, 0x66, 0x66] = 0x19999
   \<and> tempData_of [0x19, 0x19, 0x99, 0x9A, 0x66, 0x66] = 0xA6666
   \<and> status (fst (AHT10_getTempHumid100
         (s\<lparr>pending := (pending s)(0 := 0x19, 1 := 0x19, 2 := 0x99, 3 := 0x9A, 4 := 0x66, 5 := 0x66)\<rparr>)))
       = 0x19
   \<and> fst (AHT10_getTempHumid100
         (s\<lparr>pending := (pending s)(0 := b0, 1 := b1, 2 := b2, 3 := b3, 4 := b4, 5 := b5)\<rparr>))
       = \<lparr>status = b0,
          temp100 = temp100_of (tempData_of [b0, b1, b2, b3, b4, b5]),
          humid100 = humid100_of (humidData_of [b0, b1, b2, b3, b4, b5])\<rparr>
   \<and> fst (AHT10_getTempHumid100
         (s\<lparr>pending := (pending s)(0 := 0x19, 1 := 0x19, 2 := 0x99, 3 := 0x9A, 4 := 0x66, 5 := 0x66)\<rparr>))
       = \<lparr>status = 0x19, temp100 = temp100_of 0xA6666, humid100 = humid100_of 0x19999\<rparr>
   \<and> fst (AHT10_getTempHumid100 s)
       = \<lparr>status = pending s 0,
          temp100 = temp100_of
            (tempData_of [pending s 0, pending s 1, pending s 2, pending s 3, pending s 4, pending s 5]),
          humid100 = humid100_of
            (humidData_of [pending s 0, pending s 1, pending s 2, pending s 3, pending s 4, pending s 5])\<rparr>"
proof -
  have ex: "humidData_of [0x19, 0x19, 0x99, 0x9A, 0x66, 0x66] = 0x19999"
    "tempData_of [0x19, 0x19, 0x99, 0x9A, 0x66, 0x66] = 0xA6666"
    by (simp_all add: humidData_of_def tempData_of_def)
  have st: "status (fst (AHT10_getTempHumid100
         (s\<lparr>pending := (pending s)(0 := 0x19, 1 := 0x19, 2 := 0x99, 3 := 0x9A, 4 := 0x66, 5 := 0x66)\<rparr>)))
       = 0x19"
    by (simp add: getTempHumid100_reading)
  have c1: "uint (humidData_of [b0, b1, b2, b3, b4, b5])
      = (uint b1 * 2 ^ 16 + uint b2 * 2 ^ 8 + uint b3) div 2 ^ 4"
    by (simp add: uint_humidData_of)
  have c2: "uint (tempData_of [b0, b1, b2, b3, b4, b5])
      = (uint b3 mod 2 ^ 4) * 2 ^ 16 + uint b4 * 2 ^ 8 + uint b5"
    by (simp add: uint_tempData_of)
  have c3: "uint (humidData_of [b0, b1, b2, b3, b4, b5])
      = uint b1 * 2 ^ 12 + uint b2 * 2 ^ 4 + uint b3 div 2 ^ 4"
    by (simp add: humidData_nibbles)
  have g: "fst (AHT10_getTempHumid100 s)
       = \<lparr>status = pending s 0,
          temp100 = temp100_of
            (tempData_of [pending s 0, pending s 1, pending s 2, pending s 3, pending s 4, pending s 5]),
          humid100 = humid100_of
            (humidData_of [pending s 0, pending s 1, pending s 2, pending s 3, pending s 4, pending s 5])\<rparr>"
    for s
    by (simp only: getTempHumid100_reading readSensorData_data)
  have gb: "fst (AHT10_getTempHumid100
         (s\<lparr>pending := (pending s)(0 := b0, 1 := b1, 2 := b2, 3 := b3, 4 := b4, 5 := b5)\<rparr>))
       = \<lparr>status = b0,
          temp100 = temp100_of (tempData_of [b0, b1, b2, b3, b4, b5]),
          humid100 = humid100_of (humidData_of [b0, b1, b2, b3, b4, b5])\<rparr>"
    by (simp add: g)
  have ge: "fst (AHT10_getTempHumid100
         (s\<lparr>pending := (pending s)(0 := 0x19, 1 := 0x19, 2 := 0x99, 3 := 0x9A, 4 := 0x66, 5 := 0x66)\<rparr>))
       = \<lparr>status = 0x19, temp100 = temp100_of 0xA6666, humid100 = humid100_of 0x19999\<rparr>"
    by (simp add: g ex)
  show ?thesis
    by (intro conjI c1 c2 c3 ex st gb ge g field40_div_mod [symmetric])
qed


text \<open>
  Claim C6, as stated, in the state with handle 0 and no call made yet. The claim lists
  setting write mode among the operations before the first start. The calls made before
  the first start are the address and the byte count 3 only: no call sets write mode
  there, and the only such call of the whole function is the one after the read.
\<close>

theorem readSensorData_write_mode_counterexample:
  "takeWhile (\<lambda>c. c \<noteq> Start 0)
      (calls (snd (AHT10_readSensorData \<lparr>AHT10_I2C = 0, calls = [], pending = (\<lambda>k. 0)\<rparr>)))
     = [SetAddress 0 0x38, SetNBytes 0 3]
   \<and> SetWriteMode 0 \<notin> set (takeWhile (\<lambda>c. c \<noteq> Start 0)
      (calls (snd (AHT10_readSensorData \<lparr>AHT10_I2C = 0, calls = [], pending = (\<lambda>k. 0)\<rparr>))))
   \<and> length (filter (\<lambda>c. c = SetWriteMode 0)
      (calls (snd (AHT10_readSensorData \<lparr>AHT10_I2C = 0, calls = [], pending = (\<lambda>k. 0)\<rparr>)))) = 1"
  by (simp add: readSensorData_calls)

text \<open>
  Claim C6, amended. Every call of \<open>AHT10_readSensorData\<close> makes exactly these calls, in
  this order: address \<open>0x38\<close>, byte count 3, start, the writes of \<open>0xAC\<close>, \<open>0x33\<close>,
  \<open>0x00\<close>, stop; a delay of 75000 microseconds, whatever the state; byte count 6, read
  mode, start, six reads whose results are \<open>data[0]\<close> to \<open>data[5]\<close> in order, stop, write
  mode, and a delay of 420 microseconds. The direction of the first transaction is not
  set by the function: it is the one the transport is in when the function is called.
\<close>

theorem readSensorData_sequence:
  "calls (snd (AHT10_readSensorData s)) =
     calls s @
       [SetAddress (AHT10_I2C s) 0x38, SetNBytes (AHT10_I2C s) 3, Start (AHT10_I2C s),
        Write (AHT10_I2C s) 0xAC, Write (AHT10_I2C s) 0x33, Write (AHT10_I2C s) 0x00,
        Stop (AHT10_I2C s), Delay_us 75000,
        SetNBytes (AHT10_I2C s) 6, SetReadMode (AHT10_I2C s), Start (AHT10_I2C s),
        Read (AHT10_I2C s), Read (AHT10_I2C s), Read (AHT10_I2C s),
        Read (AHT10_I2C s), Read (AHT10_I2C s), Read (AHT10_I2C s),
        Stop (AHT10_I2C s), SetWriteMode (AHT10_I2C s), Delay_us 420]
   \<and> fst (AHT10_readSensorData s)
       = [pending s 0, pending s 1, pending s 2, pending s 3, pending s 4, pending s 5]
   \<and> pending (snd (AHT10_readSensorData s)) = (\<lambda>k. pending s (k + 6))
   \<and> AHT10_I2C (snd (AHT10_readSensorData s)) = AHT10_I2C s"
  using readSensorData_calls [of s] readSensorData_data [of s] readSensorData_pending [of s]
    readSensorData_global [of s]
  by (intro conjI)

text \<open>
  Claim C7. The status returned by \<open>AHT10_getTempHumid100\<close> is byte 0 of the raw
  measurement, and nothing else depends on that byte: replacing it by any \<open>b\<close> changes
  the returned status to \<open>b\<close> and leaves \<open>temp100\<close>, \<open>humid100\<close>, the calls made and the
  rest of the final state as they were. Whatever the status, the calls are the one fixed
  sequence of a single trigger and a single read: no branch, no retry, and the result
  type has no error.
\<close>

theorem status_pass_through:
  "status (fst (AHT10_getTempHumid100 s)) = pending s 0
   \<and> status (fst (AHT10_getTempHumid100 (s\<lparr>pending := (pending s)(0 := b)\<rparr>))) = b
   \<and> temp100 (fst (AHT10_getTempHumid100 (s\<lparr>pending := (pending s)(0 := b)\<rparr>)))
       = temp100 (fst (AHT10_getTempHumid100 s))
   \<and> humid100 (fst (AHT10_getTempHumid100 (s\<lparr>pending := (pending s)(0 := b)\<rparr>)))
       = humid100 (fst (AHT10_getTempHumid100 s))
   \<and> calls (snd (AHT10_getTempHumid100 (s\<lparr>pending := (pending s)(0 := b)\<rparr>)))
       = calls (snd (AHT10_getTempHumid100 s))
   \<and> pending (snd (AHT10_getTempHumid100 (s\<lparr>pending := (pending s)(0 := b)\<rparr>)))
       = pending (snd (AHT10_getTempHumid100 s))
   \<and> AHT10_I2C (snd (AHT10_getTempHumid100 (s\<lparr>pending := (pending s)(0 := b)\<rparr>)))
       = AHT10_I2C (snd (AHT10_getTempHumid100 s))
   \<and> calls (snd (AHT10_getTempHumid100 (s\<lparr>pending := (pending s)(0 := b)\<rparr>))) =
       calls s @
         [SetAddress (AHT10_I2C s) 0x38, SetNBytes (AHT10_I2C s) 3, Start (AHT10_I2C s),
          Write (AHT10_I2C s) 0xAC, Write (AHT10_I2C s) 0x33, Write (AHT10_I2C s) 0x00,
          Stop (AHT10_I2C s), Delay_us 75000,
          SetNBytes (AHT10_I2C s) 6, SetReadMode (AHT10_I2C s), Start (AHT10_I2C s),
          Read (AHT10_I2C s), Read (AHT10_I2C s), Read (AHT10_I2C s),
          Read (AHT10_I2C s), Read (AHT10_I2C s), Read (AHT10_I2C s),
          Stop (AHT10_I2C s), SetWriteMode (AHT10_I2C s), Delay_us 420]"
proof -
  let ?s' = "s\<lparr>pending := (pending s)(0 := b)\<rparr>"
  have d: "fst (AHT10_readSensorData ?s') = b # tl (fst (AHT10_readSensorData s))"
    by (simp add: readSensorData_data)
  have d0: "fst (AHT10_readSensorData s) = pending s 0 # tl (fst (AHT10_readSensorData s))"
    by (simp add: readSensorData_data)
  have h: "humidData_of (fst (AHT10_readSensorData ?s')) = humidData_of (fst (AHT10_readSensorData s))"
    unfolding d by (subst (2) d0) (rule humidData_ignores_status)
  have t: "tempData_of (fst (AHT10_readSensorData ?s')) = tempData_of (fst (AHT10_readSensorData s))"
    unfolding d by (subst (2) d0) (rule tempData_ignores_status)
  have c: "calls (snd (AHT10_readSensorData ?s')) = calls (snd (AHT10_readSensorData s))"
    by (simp add: readSensorData_calls)
  have p: "pending (snd (AHT10_readSensorData ?s')) = pending (snd (AHT10_readSensorData s))"
    by (simp add: readSensorData_pending)
  have g: "AHT10_I2C (snd (AHT10_readSensorData ?s')) = AHT10_I2C (snd (AHT10_readSensorData s))"
    by (simp add: readSensorData_global)
  have q: "calls (snd (AHT10_readSensorData ?s')) =
       calls s @
         [SetAddress (AHT10_I2C s) 0x38, SetNBytes (AHT10_I2C s) 3, Start (AHT10_I2C s),
          Write (AHT10_I2C s) 0xAC, Write (AHT10_I2C s) 0x33, Write (AHT10_I2C s) 0x00,
          Stop (AHT10_I2C s), Delay_us 75000,
          SetNBytes (AHT10_I2C s) 6, SetReadMode (AHT10_I2C s), Start (AHT10_I2C s),
          Read (AHT10_I2C s), Read (AHT10_I2C s), Read (AHT10_I2C s),
          Read (AHT10_I2C s), Read (AHT10_I2C s), Read (AHT10_I2C s),
          Stop (AHT10_I2C s), SetWriteMode (AHT10_I2C s), Delay_us 420]"
    by (simp add: readSensorData_calls)
  show ?thesis
    using h t c p g q
    by (simp add: getTempHumid100_reading getTempHumid100_world)
qed

section \<open>Ranges of the results\<close>

lemma tempData_range_read:
  "uint (tempData_of (fst (AHT10_readSensorData s))) < 1048576"
  unfolding readSensorData_data using tempData_range by blast

lemma humidData_range_read:
  "uint (humidData_of (fst (AHT10_readSensorData s))) < 1048576"
  unfolding readSensorData_data by (rule humidData_range)

lemma temp_quot_range:
  fixes n :: int
  assumes "0 \<le> n" "n < 1048576"
  shows "0 \<le> n * 625 div 32768" "n * 625 div 32768 \<le> 19999"
  using assms by simp_all

lemma humid_quot_range:
  fixes n :: int
  assumes "0 \<le> n" "n < 1048576"
  shows "0 \<le> n div 10486" "n div 10486 \<le> 99"
  using assms by simp_all

text \<open>
  Claim C9. For every raw measurement the results of \<open>AHT10_getTempHumid100\<close> stay in
  fixed ranges: \<open>temp100\<close> in \<open>[-5000, 14999]\<close> and \<open>humid100\<close> in \<open>[0, 99]\<close>, 99 being
  the value for the largest humidity field \<open>2 ^ 20 - 1\<close>. The product \<open>tempData * 625\<close> is
  at most 655359375, so the 32-bit product is the true one, and each stored \<open>int16_t\<close> is
  the value of its expression on unbounded integers.
\<close>

theorem conversion_ranges:
  "- 5000 \<le> sint (temp100 (fst (AHT10_getTempHumid100 s)))
   \<and> sint (temp100 (fst (AHT10_getTempHumid100 s))) \<le> 14999
   \<and> 0 \<le> sint (humid100 (fst (AHT10_getTempHumid100 s)))
   \<and> sint (humid100 (fst (AHT10_getTempHumid100 s))) \<le> 99
   \<and> uint (tempData_of (fst (AHT10_readSensorData s))) * 625 \<le> 655359375
   \<and> uint (tempData_of (fst (AHT10_readSensorData s)) * 625)
       = uint (tempData_of (fst (AHT10_readSensorData s))) * 625
   \<and> sint (temp100 (fst (AHT10_getTempHumid100 s)))
       = uint (tempData_of (fst (AHT10_readSensorData s))) * 625 div 32768 - 5000
   \<and> sint (humid100 (fst (AHT10_getTempHumid100 s)))
       = uint (humidData_of (fst (AHT10_readSensorData s))) div 10486
   \<and> sint (humid100_of 0xFFFFF) = 99"
proof -
  define t where "t = tempData_of (fst (AHT10_readSensorData s))"
  define h where "h = humidData_of (fst (AHT10_readSensorData s))"
  have tl: "uint t < 1048576" unfolding t_def by (rule tempData_range_read)
  have hl: "uint h < 1048576" unfolding h_def by (rule humidData_range_read)
  have tn: "0 \<le> uint t" and hn: "0 \<le> uint h" by simp_all
  have T: "sint (temp100 (fst (AHT10_getTempHumid100 s))) = uint t * 625 div 32768 - 5000"
    unfolding t_def using tl [unfolded t_def]
    by (simp add: getTempHumid100_reading sint_temp100_of)
  have H: "sint (humid100 (fst (AHT10_getTempHumid100 s))) = uint h div 10486"
    unfolding h_def using hl [unfolded h_def]
    by (simp add: getTempHumid100_reading sint_humid100_of)
  note q = temp_quot_range [OF tn tl]
  note k = humid_quot_range [OF hn hl]
  have p: "uint t * 625 \<le> 655359375" using tl by simp
  have "uint (t * 625) = (uint t * 625) mod 4294967296"
    by (simp add: uint_word_ariths)
  then have u: "uint (t * 625) = uint t * 625"
    using p tn by simp
  have m: "sint (humid100_of 0xFFFFF) = 99"
    by (simp add: humid100_of_def)
  show ?thesis
    unfolding T H t_def [symmetric] h_def [symmetric]
    using q k p u m by simp
qed

section \<open>The formatter against the specification\<close>

lemma sint_to_int16: "- 32768 \<le> k \<Longrightarrow> k < 32768 \<Longrightarrow> sint (to_int16 k) = k"
  unfolding to_int16_def by (simp only: int_word_sint) simp

lemma sint_int16_range: "- 32768 \<le> sint (v :: int16_t) \<and> sint v < 32768"
  using sint_ge [of v] sint_lt [of v] by simp

lemma itoa_nonneg: "0 \<le> v \<Longrightarrow> itoa v = digits10 (nat v)"
  by (simp add: itoa_def)

lemma digits10_digit: "n < 10 \<Longrightarrow> digits10 n = [digit_char n]"
  by (simp add: digits10.simps)

lemma digits10_step:
  "\<not> n < 10 \<Longrightarrow> digits10 n = digits10 (n div 10) @ [digit_char (n mod 10)]"
  by (subst digits10.simps) simp

lemma round_up_ints:
  assumes "0 \<le> r" "r < 10" "0 \<le> d" "d < 10" "0 \<le> w" "w \<le> 327"
  shows "round_up (to_int16 r) (to_int16 d) (to_int16 w)
     = (if 5 \<le> r then (if d + 1 = 10 then (to_int16 0, to_int16 (w + 1)) else (to_int16 (d + 1), to_int16 w))
        else (to_int16 d, to_int16 w))"
proof -
  have sw: "sint (to_int16 w) = w"
    using assms by (intro sint_to_int16) linarith+
  have sd: "sint (to_int16 d) = d"
    using assms by (intro sint_to_int16) linarith+
  have sr: "sint (to_int16 r) = r"
    using assms by (intro sint_to_int16) linarith+
  have sd1: "sint (to_int16 (d + 1)) = d + 1"
    using assms by (intro sint_to_int16) linarith+
  have z: "(0 :: int16_t) = to_int16 0" by (simp add: to_int16_def)
  show ?thesis
    unfolding round_up_def Let_def sr sd sw sd1
    using assms by (auto simp: z)
qed

lemma i100toa_refines:
  assumes "sint realV \<noteq> - 32768"
  shows "i100toa realV = FormatCentiValue (sint realV)"
proof -
  define a where "a = \<bar>sint realV\<bar>"
  define w where "w = a div 100"
  define f where "f = a mod 100"
  define d where "d = f div 10"
  define r where "r = f mod 10"
  have a: "0 \<le> a" "a \<le> 32767"
    using assms sint_int16_range [of realV] unfolding a_def by linarith+
  have w: "0 \<le> w" "w \<le> 327" using a unfolding w_def by simp_all
  have f: "0 \<le> f" "f < 100" unfolding f_def by simp_all
  have d: "0 \<le> d" "d < 10" using f unfolding d_def by simp_all
  have r: "0 \<le> r" "r < 10" unfolding r_def by simp_all
  have sx: "sint (to_int16 a) = a"
    using a by (intro sint_to_int16) linarith+
  have cw: "c_div a 100 = w"
    unfolding w_def using a by (simp add: c_div_nonneg)
  have sw: "sint (to_int16 w) = w"
    using w by (intro sint_to_int16) linarith+
  have ef: "a - w * 100 = f"
    unfolding w_def f_def by (simp add: minus_div_mult_eq_mod)
  have sf: "sint (to_int16 f) = f"
    using f by (intro sint_to_int16) linarith+
  have cd: "c_div f 10 = d"
    unfolding d_def using f by (simp add: c_div_nonneg)
  have sd: "sint (to_int16 d) = d"
    using d by (intro sint_to_int16) linarith+
  have er: "f - d * 10 = r"
    unfolding d_def r_def by (simp add: minus_div_mult_eq_mod)
  have s0: "sint (to_int16 0) = 0"
    by (intro sint_to_int16) simp_all
  have sw1: "sint (to_int16 (w + 1)) = w + 1"
    using w by (intro sint_to_int16) linarith+
  have sd1: "sint (to_int16 (d + 1)) = d + 1"
    using d by (intro sint_to_int16) linarith+
  have lhs: "i100toa realV =
      (case round_up (to_int16 r) (to_int16 d) (to_int16 w) of
         (d', w') \<Rightarrow> (if sint realV < 0 then ''-'' else []) @ itoa (sint w') @ ''.'' @ itoa (sint d'))"
    unfolding i100toa_def Let_def a_def [symmetric] sx cw sw ef sf cd sd er ..
  have rhs: "FormatCentiValue (sint realV) =
      (case (if 5 \<le> r then (if d + 1 = 10 then (0, w + 1) else (d + 1, w)) else (d, w)) of
         (d', w') \<Rightarrow> (if sint realV < 0 then ''-'' else []) @ digits10 (nat w') @ ''.'' @ [digit_char (nat d')])"
    unfolding FormatCentiValue_def Let_def a_def [symmetric] w_def [symmetric] f_def [symmetric]
      d_def [symmetric] r_def [symmetric] ..
  show ?thesis
    unfolding lhs rhs round_up_ints [OF r d w]
    using w d by (auto simp: s0 sw sw1 sd sd1 itoa_nonneg digits10_digit)
qed

section \<open>Digits written and read back\<close>

lemma digit_val_digit_char: "n < 10 \<Longrightarrow> digit_val (digit_char n) = Some n"
proof -
  assume "n < 10"
  then have "n \<in> {0, 1, 2, 3, 4, 5, 6, 7, 8, 9}"
    by auto
  then show ?thesis
    by (auto simp: digit_val_def digit_char_def)
qed

lemma digit_char_not_point: "n < 10 \<Longrightarrow> digit_char n \<noteq> CHR ''.''"
  using digit_val_digit_char [of n] by (auto simp: digit_val_def)

lemma digit_char_not_minus: "n < 10 \<Longrightarrow> digit_char n \<noteq> CHR ''-''"
  using digit_val_digit_char [of n] by (auto simp: digit_val_def)

lemma digits10_not_empty: "digits10 n \<noteq> []"
  by (cases "n < 10") (simp_all add: digits10_digit digits10_step)

lemma dec_value_digits10: "dec_value (rev (digits10 n)) = Some n"
proof (induction n rule: digits10.induct)
  case (1 n)
  show ?case
  proof (cases "n < 10")
    case True
    then show ?thesis
      by (simp add: digits10_digit digit_val_digit_char)
  next
    case False
    then have ih: "dec_value (rev (digits10 (n div 10))) = Some (n div 10)"
      using "1.IH" by simp
    have m: "n mod 10 < 10" by simp
    show ?thesis
      using ih digit_val_digit_char [OF m]
      by (simp add: digits10_step [OF False])
  qed
qed

lemma parse_nat_digits10: "parse_nat (digits10 n) = Some n"
  by (simp add: parse_nat_def digits10_not_empty dec_value_digits10)

lemma digits10_no_point: "c \<in> set (digits10 n) \<Longrightarrow> c \<noteq> CHR ''.''"
proof (induction n rule: digits10.induct)
  case (1 n)
  show ?case
  proof (cases "n < 10")
    case True
    then show ?thesis
      using "1.prems" digit_char_not_point [of n] by (simp add: digits10_digit)
  next
    case False
    have m: "n mod 10 < 10" by simp
    from "1.prems" have "c \<in> set (digits10 (n div 10)) \<or> c = digit_char (n mod 10)"
      by (auto simp: digits10_step [OF False])
    then show ?thesis
      using "1.IH" [OF False] digit_char_not_point [OF m] by auto
  qed
qed

lemma hd_digits10_not_minus: "hd (digits10 n) \<noteq> CHR ''-''"
proof (induction n rule: digits10.induct)
  case (1 n)
  show ?case
  proof (cases "n < 10")
    case True
    then show ?thesis
      using digit_char_not_minus [of n] by (simp add: digits10_digit)
  next
    case False
    then show ?thesis
      using "1.IH" [OF False] digits10_not_empty [of "n div 10"]
      by (simp add: digits10_step [OF False])
  qed
qed


lemma takeWhile_digits10:
  "takeWhile (\<lambda>c. c \<noteq> CHR ''.'') (digits10 n @ CHR ''.'' # rest) = digits10 n"
  using digits10_no_point [of _ n] by simp

lemma dropWhile_digits10:
  "dropWhile (\<lambda>c. c \<noteq> CHR ''.'') (digits10 n @ CHR ''.'' # rest) = CHR ''.'' # rest"
  using digits10_no_point [of _ n] by simp

lemma parse_decimal1_shape:
  assumes "D < 10"
  shows "parse_decimal1 ((if neg then ''-'' else []) @ digits10 W @ ''.'' @ [digit_char D])
     = Some ((if neg then - 1 else 1) * (of_nat W + of_nat D / 10))"
proof (cases neg)
  case True
  then show ?thesis
    by (simp add: parse_decimal1_def takeWhile_digits10 dropWhile_digits10 parse_nat_digits10
        digit_val_digit_char [OF assms])
next
  case False
  have "digits10 W \<noteq> []" by (rule digits10_not_empty)
  moreover have "hd (digits10 W) \<noteq> CHR ''-''" by (rule hd_digits10_not_minus)
  ultimately show ?thesis
    using False
    by (simp add: parse_decimal1_def takeWhile_digits10 dropWhile_digits10 parse_nat_digits10
        digit_val_digit_char [OF assms])
qed

section \<open>Rounding and the round trip\<close>

lemma round_digits:
  fixes w d r :: int
  assumes "0 \<le> r" "r < 10"
  shows "(100 * w + (10 * d + r) + 5) div 10 = 10 * w + d + (if 5 \<le> r then 1 else 0)"
proof (cases "5 \<le> r")
  case True
  have "100 * w + (10 * d + r) + 5 = (r - 5) + (10 * w + d + 1) * 10"
    by simp
  then have "(100 * w + (10 * d + r) + 5) div 10 = (10 * w + d + 1) + (r - 5) div 10"
    by (simp only: div_mult_self1)
  moreover have "(r - 5) div 10 = 0"
    using True assms by simp
  ultimately show ?thesis using True by simp
next
  case False
  have "100 * w + (10 * d + r) + 5 = (r + 5) + (10 * w + d) * 10"
    by simp
  then have "(100 * w + (10 * d + r) + 5) div 10 = (10 * w + d) + (r + 5) div 10"
    by (simp only: div_mult_self1)
  moreover have "(r + 5) div 10 = 0"
    using False assms by simp
  ultimately show ?thesis using False by simp
qed

lemma FormatCentiValue_shape:
  "\<exists>W D. D < 10 \<and> int W * 10 + int D = (\<bar>k\<bar> + 5) div 10
     \<and> FormatCentiValue k = (if k < 0 then ''-'' else []) @ digits10 W @ ''.'' @ [digit_char D]"
proof -
  define a where "a = \<bar>k\<bar>"
  define w where "w = a div 100"
  define f where "f = a mod 100"
  define d where "d = f div 10"
  define r where "r = f mod 10"
  have a: "0 \<le> a" unfolding a_def by simp
  have w: "0 \<le> w" using a unfolding w_def by simp
  have f: "0 \<le> f" "f < 100" unfolding f_def by simp_all
  have d: "0 \<le> d" "d < 10" using f unfolding d_def by simp_all
  have r: "0 \<le> r" "r < 10" unfolding r_def by simp_all
  have "a = 100 * w + f" unfolding w_def f_def by simp
  moreover have "f = 10 * d + r" unfolding d_def r_def by simp
  ultimately have "(a + 5) div 10 = 10 * w + d + (if 5 \<le> r then 1 else 0)"
    using round_digits [OF r, of w d] by simp
  then have q: "(\<bar>k\<bar> + 5) div 10 = 10 * w + d + (if 5 \<le> r then 1 else 0)"
    unfolding a_def .
  have fmt: "FormatCentiValue k =
      (case (if 5 \<le> r then (if d + 1 = 10 then (0, w + 1) else (d + 1, w)) else (d, w)) of
         (d', w') \<Rightarrow> (if k < 0 then ''-'' else []) @ digits10 (nat w') @ ''.'' @ [digit_char (nat d')])"
    unfolding FormatCentiValue_def Let_def a_def [symmetric] w_def [symmetric] f_def [symmetric]
      d_def [symmetric] r_def [symmetric] ..
  show ?thesis
  proof (cases "5 \<le> r")
    case False
    have "nat d < 10 \<and> int (nat w) * 10 + int (nat d) = (\<bar>k\<bar> + 5) div 10
        \<and> FormatCentiValue k = (if k < 0 then ''-'' else []) @ digits10 (nat w) @ ''.'' @ [digit_char (nat d)]"
      using False w d q fmt by simp
    then show ?thesis by blast
  next
    case True
    show ?thesis
    proof (cases "d + 1 = 10")
      case carry: True
      have "(0 :: nat) < 10 \<and> int (nat (w + 1)) * 10 + int 0 = (\<bar>k\<bar> + 5) div 10
          \<and> FormatCentiValue k = (if k < 0 then ''-'' else []) @ digits10 (nat (w + 1)) @ ''.'' @ [digit_char 0]"
        using True carry w d q fmt by simp
      then show ?thesis by blast
    next
      case False
      have "nat (d + 1) < 10 \<and> int (nat w) * 10 + int (nat (d + 1)) = (\<bar>k\<bar> + 5) div 10
          \<and> FormatCentiValue k = (if k < 0 then ''-'' else []) @ digits10 (nat w) @ ''.'' @ [digit_char (nat (d + 1))]"
        using True False w d q fmt by simp
      then show ?thesis by blast
    qed
  qed
qed

lemma parse_FormatCentiValue:
  "parse_decimal1 (FormatCentiValue k) = Some (of_int (round_to_10 k) / 100)"
proof -
  obtain W D where D: "D < 10"
    and q: "int W * 10 + int D = (\<bar>k\<bar> + 5) div 10"
    and fmt: "FormatCentiValue k = (if k < 0 then ''-'' else []) @ digits10 W @ ''.'' @ [digit_char D]"
    using FormatCentiValue_shape [of k] by blast
  have p: "parse_decimal1 (FormatCentiValue k)
      = Some ((if k < 0 then - 1 else 1) * (of_nat W + of_nat D / 10))"
    unfolding fmt by (rule parse_decimal1_shape [OF D])
  have v: "(of_int ((\<bar>k\<bar> + 5) div 10 * 10) :: rat) / 100 = of_nat W + of_nat D / 10"
    unfolding q [symmetric] by simp
  show ?thesis
  proof (cases "k = 0")
    case True
    then have "int W * 10 + int D = 0" using q by simp
    then have "W = 0" "D = 0" by simp_all
    then show ?thesis
      unfolding p using True by (simp add: round_to_10_def)
  next
    case False
    then have s: "(of_int (sgn k) :: rat) = (if k < 0 then - 1 else 1)"
      by (simp add: sgn_if)
    have "(of_int (round_to_10 k) :: rat) / 100
        = of_int (sgn k) * (of_int ((\<bar>k\<bar> + 5) div 10 * 10) / 100)"
      unfolding round_to_10_def by simp
    then show ?thesis
      unfolding p v s by simp
  qed
qed

section \<open>Claims about the formatter\<close>

lemmas i100toa_eval = i100toa_def to_int16_def c_div_def round_up_def itoa_def digits10.simps
  digit_char_def

lemma i100toa_examples:
  "i100toa (- 235) = ''-2.4''"
  "i100toa 1996 = ''20.0''"
  "i100toa 0 = ''0.0''"
  "i100toa 2753 = ''27.5''"
  "i100toa 1236 = ''12.4''"
  by (simp_all add: i100toa_eval)

text \<open>
  Claim C3, at the input \<open>-32768\<close>. The claim asks for the magnitude 327.68 rounded to one
  decimal place behind one minus sign, which is what the specification's algorithm
  gives. In the code \<open>abs\<close> yields 32768, the store into the \<open>int16_t x\<close> wraps it back to
  \<open>-32768\<close>, and the whole part and the digit are then both printed with a sign of their
  own.
\<close>

theorem i100toa_int16_min:
  "i100toa (- 32768) = ''--327.-6''
   \<and> FormatCentiValue (sint (- 32768 :: int16_t)) = ''-327.7''"
  by (simp add: i100toa_eval FormatCentiValue_def)

text \<open>
  Claim C8, at the input \<open>-32768\<close>: the string has eight characters, nine bytes with its
  terminator, two minus signs in front and a third before the last digit.
\<close>

theorem int16_min_output_length:
  "length (i100toa (- 32768)) + 1 = 9"
  by (simp add: i100toa_eval)

text \<open>
  Claim C5, as stated, at \<open>v = 2753\<close>: the string is \<open>27.5\<close>, which read back and
  multiplied by 10 is 275, while 2753 rounded to the nearest multiple of 10 is 2750.
\<close>

theorem roundtrip_times_10_counterexample:
  "map_option (\<lambda>q. q * 10) (parse_decimal1 (i100toa 2753))
     \<noteq> Some (of_int (round_to_10 (sint (2753 :: int16_t))))"
  by (simp add: i100toa_eval parse_decimal1_def parse_nat_def digit_val_def round_to_10_def)

text \<open>
  Claim C5, amended. For every \<open>v\<close> from \<open>-9999\<close> to 9999, the string produced by
  \<open>i100toa v\<close>, read back as a signed decimal with one fractional digit and multiplied by
  100, is \<open>v\<close> rounded to the nearest multiple of 10, a tie going away from zero.
\<close>

theorem roundtrip_times_100:
  assumes "- 9999 \<le> sint v" "sint v \<le> 9999"
  shows "map_option (\<lambda>q. q * 100) (parse_decimal1 (i100toa v))
     = Some (of_int (round_to_10 (sint v)))"
proof -
  have "sint v \<noteq> - 32768" using assms by simp
  then have "i100toa v = FormatCentiValue (sint v)"
    by (rule i100toa_refines)
  then show ?thesis
    by (simp add: parse_FormatCentiValue)
qed

theorem roundtrip_times_100_witness:
  "- 9999 \<le> sint (- 235 :: int16_t) \<and> sint (- 235 :: int16_t) \<le> 9999
   \<and> map_option (\<lambda>q. q * 100) (parse_decimal1 (i100toa (- 235))) = Some (- 240)"
  using roundtrip_times_100 [of "- 235"] by (simp add: round_to_10_def)

lemma length_digits10: "n < 1000 \<Longrightarrow> length (digits10 n) \<le> 3"
proof -
  assume n: "n < 1000"
  show ?thesis
  proof (cases "n < 10")
    case True
    then show ?thesis by (simp add: digits10_digit)
  next
    case False
    note s1 = digits10_step [OF False]
    show ?thesis
    proof (cases "n div 10 < 10")
      case True
      then show ?thesis by (simp add: s1 digits10_digit)
    next
      case False
      have "n div 10 div 10 < 10" using n by simp
      then show ?thesis
        by (simp add: s1 digits10_step [OF False] digits10_digit)
    qed
  qed
qed

lemma i100toa_length_in_range:
  assumes "sint v \<noteq> - 32768"
  shows "length (i100toa v) + 1 \<le> 7"
proof -
  obtain W D where D: "D < 10"
    and q: "int W * 10 + int D = (\<bar>sint v\<bar> + 5) div 10"
    and fmt: "FormatCentiValue (sint v)
       = (if sint v < 0 then ''-'' else []) @ digits10 W @ ''.'' @ [digit_char D]"
    using FormatCentiValue_shape [of "sint v"] by blast
  have "\<bar>sint v\<bar> \<le> 32767"
    using assms sint_int16_range [of v] by linarith
  then have "(\<bar>sint v\<bar> + 5) div 10 \<le> 3277" by simp
  then have "W < 1000" using q by linarith
  then have "length (digits10 W) \<le> 3" by (rule length_digits10)
  then show ?thesis
    unfolding i100toa_refines [OF assms] fmt by simp
qed

text \<open>
  Claim C10. The minus sign follows the sign of the input, not of the rounded result:
  for every input from \<open>-44\<close> to \<open>-1\<close> the whole part printed is 0 and the string starts
  with \<open>-0.\<close>, followed by the rounded tenths digit; \<open>i100toa (-4)\<close> is \<open>-0.0\<close>.
\<close>

theorem negative_zero_prefix:
  assumes "- 44 \<le> sint realV" "sint realV \<le> - 1"
  shows "i100toa realV = ''-'' @ itoa 0 @ ''.'' @ [digit_char (nat ((5 - sint realV) div 10))]
       \<and> take 3 (i100toa realV) = ''-0.''
       \<and> i100toa (- 4) = ''-0.0''"
proof -
  define a where "a = \<bar>sint realV\<bar>"
  have a: "1 \<le> a" "a \<le> 44" "a = - sint realV" using assms unfolding a_def by simp_all
  have ne: "sint realV \<noteq> - 32768" using assms by simp
  have w: "a div 100 = 0" and f: "a mod 100 = a" using a by simp_all
  have d: "0 \<le> a div 10" "a div 10 \<le> 4" using a by simp_all
  have "a = 10 * (a div 10) + a mod 10" by simp
  then have "(a + 5) div 10 = (100 * 0 + (10 * (a div 10) + a mod 10) + 5) div 10" by simp
  also have "\<dots> = 10 * 0 + a div 10 + (if 5 \<le> a mod 10 then 1 else 0)"
    by (rule round_digits) simp_all
  finally have q: "(a + 5) div 10 = a div 10 + (if 5 \<le> a mod 10 then 1 else 0)" by simp
  have fmt: "FormatCentiValue (sint realV) = ''-'' @ digits10 0 @ ''.'' @ [digit_char (nat ((a + 5) div 10))]"
    unfolding FormatCentiValue_def Let_def a_def [symmetric] w f q
    using d assms by simp
  have e: "5 - sint realV = a + 5" using a by simp
  have main: "i100toa realV = ''-'' @ itoa 0 @ ''.'' @ [digit_char (nat ((5 - sint realV) div 10))]"
    unfolding i100toa_refines [OF ne] fmt e by (simp add: itoa_def)
  have pre: "take 3 (i100toa realV) = ''-0.''"
    unfolding main by (simp add: itoa_def digits10.simps digit_char_def)
  have four: "i100toa (- 4) = ''-0.0''"
    by (simp add: i100toa_eval)
  show ?thesis
    by (intro conjI main pre four)
qed

theorem negative_zero_prefix_witness:
  "- 44 \<le> sint (- 44 :: int16_t) \<and> sint (- 44 :: int16_t) \<le> - 1
   \<and> i100toa (- 44) = ''-0.4''"
  using negative_zero_prefix [of "- 44"] by (simp add: itoa_def digits10.simps digit_char_def)

end
